theory Spec2Isabelle
  imports Main "HOL-Library.Char_ord" "HOL-Library.List_Lexorder" "HOL-Library.Multiset"
begin

section \<open>Text: characters, character classes and string helpers\<close>

text \<open>
  The program is \<^verbatim>\<open>ufw_tui.py\<close>. Its strings are Python \<^verbatim>\<open>str\<close> values; here a
  string is a \<^typ>\<open>string\<close> whose characters are the code points below 256. The
  character classes are the ones Python's \<^verbatim>\<open>re\<close> module and \<^verbatim>\<open>str\<close> methods use for
  \<^verbatim>\<open>str\<close> arguments, restricted to that range.
\<close>

definition ord :: "char \<Rightarrow> nat" where
  "ord c = of_char c"

definition is_space :: "char \<Rightarrow> bool" where
  \<comment> \<open>\<^verbatim>\<open>\s\<close> and \<^verbatim>\<open>str.isspace\<close>: TAB..CR, FS..US, space, NEL, NBSP\<close>
  "is_space c = (let n = ord c in (9 \<le> n \<and> n \<le> 13) \<or> (28 \<le> n \<and> n \<le> 32) \<or> n = 133 \<or> n = 160)"

definition is_digit :: "char \<Rightarrow> bool" where
  \<comment> \<open>\<^verbatim>\<open>\d\<close>: the decimal digits\<close>
  "is_digit c = (let n = ord c in 48 \<le> n \<and> n \<le> 57)"

definition is_word :: "char \<Rightarrow> bool" where
  \<comment> \<open>\<^verbatim>\<open>\w\<close>: alphanumeric characters and the underscore\<close>
  "is_word c = (let n = ord c in
     (48 \<le> n \<and> n \<le> 57) \<or> (65 \<le> n \<and> n \<le> 90) \<or> n = 95 \<or> (97 \<le> n \<and> n \<le> 122)
     \<or> n = 170 \<or> n = 178 \<or> n = 179 \<or> n = 181 \<or> n = 185 \<or> n = 186
     \<or> (188 \<le> n \<and> n \<le> 190) \<or> (192 \<le> n \<and> n \<le> 214) \<or> (216 \<le> n \<and> n \<le> 246)
     \<or> (248 \<le> n \<and> n \<le> 255))"

definition is_linebreak :: "char \<Rightarrow> bool" where
  \<comment> \<open>the line boundaries of \<^verbatim>\<open>str.splitlines\<close>: LF, VT, FF, CR, FS, GS, RS, NEL\<close>
  "is_linebreak c = (let n = ord c in (10 \<le> n \<and> n \<le> 13) \<or> (28 \<le> n \<and> n \<le> 30) \<or> n = 133)"

fun splitlines_from :: "string \<Rightarrow> string \<Rightarrow> string list" where
  \<comment> \<open>first argument: the current line so far, reversed\<close>
  "splitlines_from acc [] = (if acc = [] then [] else [rev acc])"
| "splitlines_from acc (c # cs) =
     (if is_linebreak c then
        (if c = CHR 0x0D \<and> cs \<noteq> [] \<and> hd cs = CHR 0x0A
         then rev acc # splitlines_from [] (tl cs)
         else rev acc # splitlines_from [] cs)
      else splitlines_from (c # acc) cs)"

definition splitlines :: "string \<Rightarrow> string list" where
  \<comment> \<open>\<^verbatim>\<open>str.splitlines()\<close>: CR LF is one boundary, no empty last line\<close>
  "splitlines s = splitlines_from [] s"

fun split_from :: "char \<Rightarrow> string \<Rightarrow> string \<Rightarrow> string list" where
  "split_from sep acc [] = [rev acc]"
| "split_from sep acc (c # cs) =
     (if c = sep then rev acc # split_from sep [] cs else split_from sep (c # acc) cs)"

definition split_sp :: "string \<Rightarrow> string list" where
  \<comment> \<open>\<^verbatim>\<open>s.split(' ')\<close>: every single space separates, adjacent spaces give empty items\<close>
  "split_sp s = split_from (CHR '' '') [] s"

definition strip :: "string \<Rightarrow> string" where
  \<comment> \<open>\<^verbatim>\<open>str.strip()\<close>\<close>
  "strip s = rev (dropWhile is_space (rev (dropWhile is_space s)))"

section \<open>Regular expressions with backtracking\<close>

text \<open>
  The fragment of Python's pattern language that the program's three patterns use. A
  match state is the position, the text from that position on and the groups captured
  so far; \<open>backtrack\<close> lists the states in which a pattern can end, in the order in
  which the backtracking matcher tries them (greedy repetition: longest first; an
  optional part: present first; an alternation: left first). \<^verbatim>\<open>re.match\<close> takes the
  first.
\<close>

datatype regex =
    Bol
  | Lit string
  | Star "char \<Rightarrow> bool"
  | Plus "char \<Rightarrow> bool"
  | Opt regex
  | Alt regex regex
  | Seq regex regex
  | Grp nat regex

type_synonym groups = "nat \<rightharpoonup> string"
type_synonym mstate = "nat \<times> string \<times> groups"

fun greedy :: "(char \<Rightarrow> bool) \<Rightarrow> string \<Rightarrow> nat list" where
  \<comment> \<open>how many characters a greedy repetition of a class may take, most first\<close>
  "greedy P [] = [0]"
| "greedy P (c # cs) = (if P c then map Suc (greedy P cs) @ [0] else [0])"

fun backtrack :: "regex \<Rightarrow> mstate \<Rightarrow> mstate list" where
  "backtrack Bol (p, s, g) = (if p = 0 then [(p, s, g)] else [])"
| "backtrack (Lit cs) (p, s, g) =
     (if take (length cs) s = cs then [(p + length cs, drop (length cs) s, g)] else [])"
| "backtrack (Star P) (p, s, g) = map (\<lambda>k. (p + k, drop k s, g)) (greedy P s)"
| "backtrack (Plus P) (p, s, g) =
     map (\<lambda>k. (p + k, drop k s, g)) (filter (\<lambda>k. 0 < k) (greedy P s))"
| "backtrack (Opt r) st = backtrack r st @ [st]"
| "backtrack (Alt a b) st = backtrack a st @ backtrack b st"
| "backtrack (Seq a b) st = concat (map (backtrack b) (backtrack a st))"
| "backtrack (Grp i r) (p, s, g) =
     map (\<lambda>(q, t, h). (q, t, h(i \<mapsto> take (q - p) s))) (backtrack r (p, s, g))"

definition re_match :: "regex \<Rightarrow> string \<Rightarrow> groups option" where
  \<comment> \<open>\<^verbatim>\<open>re.match(pattern, s)\<close>: the groups of the first match at the start of \<open>s\<close>\<close>
  "re_match r s = (case backtrack r (0, s, Map.empty) of [] \<Rightarrow> None | (q, t, g) # _ \<Rightarrow> Some g)"

section \<open>Port\<close>

datatype error = ValueError string | IndexError

record Port =
  port_num :: string
  allowed :: bool
  protocol :: string

type_synonym command = "string list"

definition str_port :: "Port \<Rightarrow> error + string" where
  "str_port p =
     (if protocol p = ''any'' then Inr (port_num p)
      else if protocol p = ''tcp'' \<or> protocol p = ''udp'' then Inr (port_num p @ ''/'' @ protocol p)
      else Inl (ValueError (''Invalid protocol: '' @ protocol p)))"

text \<open>
  The methods that run \<^verbatim>\<open>sudo ufw ...\<close> take the list of the commands run so far and
  return it extended; the outcome of the command is not looked at.
\<close>

definition allow :: "Port \<Rightarrow> command list \<Rightarrow> error + Port \<times> command list" where
  "allow p w =
     (case str_port p of
        Inl e \<Rightarrow> Inl e
      | Inr s \<Rightarrow> Inr (p\<lparr>allowed := True\<rparr>, w @ [[''sudo'', ''ufw'', ''allow'', s]]))"

definition deny :: "Port \<Rightarrow> command list \<Rightarrow> error + Port \<times> command list" where
  "deny p w =
     (case str_port p of
        Inl e \<Rightarrow> Inl e
      | Inr s \<Rightarrow> Inr (p\<lparr>allowed := False\<rparr>, w @ [[''sudo'', ''ufw'', ''deny'', s]]))"

definition delete :: "Port \<Rightarrow> command list \<Rightarrow> error + command list" where
  "delete p w =
     (case str_port p of
        Inl e \<Rightarrow> Inl e
      | Inr s \<Rightarrow>
          Inr (w @ [[''sudo'', ''ufw'', ''delete'', if allowed p then ''allow'' else ''deny'', s]]))"

definition toggle :: "Port \<Rightarrow> command list \<Rightarrow> error + Port \<times> command list" where
  "toggle p w = (if allowed p then deny p w else allow p w)"

definition str_allowed :: "Port \<Rightarrow> string" where
  "str_allowed p = (if allowed p then ''ALLOWED'' else ''DENIED'')"

section \<open>The status listing: \<^verbatim>\<open>get_ports\<close>\<close>

fun seqs :: "regex list \<Rightarrow> regex" where
  \<comment> \<open>the parts of a pattern, one after the other\<close>
  "seqs [] = Lit []"
| "seqs [r] = r"
| "seqs (r # rs) = Seq r (seqs rs)"

definition tcp_udp :: regex where
  \<comment> \<open>\<^verbatim>\<open>tcp|udp\<close>\<close>
  "tcp_udp = Alt (Lit ''tcp'') (Lit ''udp'')"

definition numbered_re :: regex where
  \<comment> \<open>\<^verbatim>\<open>^\[\s*(\d+)\]\<close>\<close>
  "numbered_re = seqs [Bol, Lit ''['', Star is_space, Grp 1 (Plus is_digit), Lit '']'']"

definition status_re :: regex where
  \<comment> \<open>\<^verbatim>\<open>^\[\s*\d+\]\s+(\w+)(?:/(tcp|udp))?\s+(ALLOW|DENY)\<close>\<close>
  "status_re = seqs [Bol, Lit ''['', Star is_space, Plus is_digit, Lit '']'', Plus is_space,
     Grp 1 (Plus is_word), Opt (Seq (Lit ''/'') (Grp 2 tcp_udp)), Plus is_space,
     Grp 3 (Alt (Lit ''ALLOW'') (Lit ''DENY''))]"

definition status_port :: "groups \<Rightarrow> Port" where
  \<comment> \<open>the Port built from the three groups of a matched line; groups 1 and 3 take
     part in every match of \<open>status_re\<close>\<close>
  "status_port g =
     \<lparr>port_num = the (g 1),
      allowed = (g 3 = Some ''ALLOW''),
      protocol = (case g 2 of None \<Rightarrow> ''any'' | Some s \<Rightarrow> s)\<rparr>"

fun get_ports_loop :: "Port list \<Rightarrow> string list \<Rightarrow> error + Port list" where
  "get_ports_loop port_lst [] = Inr port_lst"
| "get_ports_loop port_lst (line # rest) =
     (case re_match status_re line of
        None \<Rightarrow> Inl (ValueError (''Invalid line: '' @ line))
      | Some g \<Rightarrow> get_ports_loop (port_lst @ [status_port g]) rest)"

definition port_lines :: "string \<Rightarrow> string list" where
  \<comment> \<open>the lines of the listing that start with a bracketed number\<close>
  "port_lines stdout = filter (\<lambda>line. re_match numbered_re line \<noteq> None) (splitlines stdout)"

definition get_ports :: "string \<Rightarrow> error + Port list" where
  \<comment> \<open>the argument is the output of \<^verbatim>\<open>sudo ufw status numbered\<close>\<close>
  "get_ports stdout =
     (let port_line_lst = port_lines stdout in
      if length port_line_lst mod 2 \<noteq> 0
      then Inl (ValueError ''The amount of ports are not diviced by 2'')
      else
        (case get_ports_loop [] (take (length port_line_lst div 2) port_line_lst) of
           Inl e \<Rightarrow> Inl e
         | Inr port_lst \<Rightarrow> Inr (sort_key port_num port_lst)))"

section \<open>The session: \<^verbatim>\<open>main\<close>\<close>

text \<open>
  A session is what \<open>main\<close> keeps between two keys: the list of Ports and the selected
  index, together with what the operator and the system have seen of it so far: the
  commands run and the popups shown, each in order. The terminal itself is left out
  (the window sizes of the dialogs, the errors of curses), and so is the key that closes
  a popup.
\<close>

datatype popup =
    Popup string "string option"  \<comment> \<open>\<^verbatim>\<open>show_popup(stdscr, message, header)\<close>\<close>
  | Help  \<comment> \<open>the help popup; its text has arrows beyond code point 255\<close>

record session =
  port_lst :: "Port list"
  current_index :: int
  commands :: "command list"
  popups :: "popup list"

datatype flow = Continue | Break

definition key :: "char \<Rightarrow> int" where
  "key c = int (ord c)"

definition KEY_DOWN :: int where
  "KEY_DOWN = 258"

definition KEY_UP :: int where
  "KEY_UP = 259"

definition py_index :: "'a list \<Rightarrow> int \<Rightarrow> error + nat" where
  \<comment> \<open>the position a Python list index denotes; a negative index counts from the end\<close>
  "py_index xs i =
     (let n = int (length xs); j = (if i < 0 then i + n else i)
      in if 0 \<le> j \<and> j < n then Inr (nat j) else Inl IndexError)"

definition viewport :: "int \<Rightarrow> int \<Rightarrow> int \<Rightarrow> int \<times> int" where
  \<comment> \<open>the scroll window: \<open>(start_index, end_index)\<close> for a list of \<open>n\<close> ports\<close>
  "viewport cur n visible_height =
     (let start_index = (if cur \<ge> visible_height then max 0 (cur - visible_height + 1) else 0);
          end_index = min n (start_index + visible_height)
      in (start_index, end_index))"

definition show_popup :: "popup \<Rightarrow> session \<Rightarrow> session" where
  "show_popup m st = st\<lparr>popups := popups st @ [m]\<rparr>"

definition add_re :: regex where
  \<comment> \<open>\<^verbatim>\<open>(!)?(\w+)(?:/(tcp|udp))?\<close>\<close>
  "add_re = seqs [Opt (Grp 1 (Lit ''!'')), Grp 2 (Plus is_word),
     Opt (Seq (Lit ''/'') (Grp 3 tcp_udp))]"

definition input_port :: "groups \<Rightarrow> Port" where
  \<comment> \<open>the Port built from the three groups of a matched add-ports item; group 2 takes
     part in every match of \<open>add_re\<close>\<close>
  "input_port g =
     \<lparr>port_num = the (g 2),
      allowed = (g 1 \<noteq> Some ''!''),
      protocol = (case g 3 of None \<Rightarrow> ''any'' | Some s \<Rightarrow> if s = [] then ''any'' else s)\<rparr>"

definition add_port :: "string \<Rightarrow> session \<Rightarrow> error + session" where
  \<comment> \<open>the body of the loop over the items of the add-ports input\<close>
  "add_port port_input st =
     (case re_match add_re port_input of
        None \<Rightarrow> Inr (show_popup (Popup (''Invalid port: '' @ port_input) None) st)
      | Some g \<Rightarrow>
          (let port = input_port g in
           if port_num port \<in> set (map port_num (port_lst st))
           then Inr (show_popup (Popup (''Port '' @ port_num port @ '' already exists'') None) st)
           else
             (case (if allowed port then allow port (commands st) else deny port (commands st)) of
                Inl e \<Rightarrow> Inl e
              | Inr (port', w) \<Rightarrow> Inr (st\<lparr>port_lst := port_lst st @ [port'], commands := w\<rparr>))))"

fun add_ports :: "string list \<Rightarrow> session \<Rightarrow> error + session" where
  "add_ports [] st = Inr st"
| "add_ports (port_input # rest) st =
     (case add_port port_input st of Inl e \<Rightarrow> Inl e | Inr st' \<Rightarrow> add_ports rest st')"

definition input_window :: "string \<Rightarrow> string" where
  \<comment> \<open>the argument is the text the operator entered\<close>
  "input_window entered = strip entered"

definition step :: "int \<Rightarrow> string \<Rightarrow> session \<Rightarrow> error + flow \<times> session" where
  \<comment> \<open>the second part of a round of the loop, from \<^verbatim>\<open>getch\<close> on: the key, and the text
     entered if the input window opens\<close>
  "step key_input entered st =
     (if key_input = key (CHR ''q'') then Inr (Break, st)
      else if key_input = KEY_UP \<and> current_index st > 0
        then Inr (Continue, st\<lparr>current_index := current_index st - 1\<rparr>)
      else if key_input = KEY_DOWN \<and> current_index st < int (length (port_lst st)) - 1
        then Inr (Continue, st\<lparr>current_index := current_index st + 1\<rparr>)
      else if key_input = key (CHR '' '') then
        (if port_lst st = []
         then Inr (Continue, show_popup (Popup ''No ports to toggle'' (Some ''Error'')) st)
         else
           (case py_index (port_lst st) (current_index st) of
              Inl e \<Rightarrow> Inl e
            | Inr i \<Rightarrow>
                (case toggle (port_lst st ! i) (commands st) of
                   Inl e \<Rightarrow> Inl e
                 | Inr (port', w) \<Rightarrow>
                     Inr (Continue, st\<lparr>port_lst := (port_lst st)[i := port'], commands := w\<rparr>))))
      else if key_input = key (CHR ''a'') then
        (let user_input = input_window entered in
         if user_input = [] then Inr (Continue, st)
         else
           (case add_ports (split_sp user_input) st of
              Inl e \<Rightarrow> Inl e
            | Inr st' \<Rightarrow> Inr (Continue, st')))
      else if key_input = key (CHR ''d'') then
        (case py_index (port_lst st) (current_index st) of
           Inl e \<Rightarrow> Inl e
         | Inr i \<Rightarrow>
             (case delete (port_lst st ! i) (commands st) of
                Inl e \<Rightarrow> Inl e
              | Inr w \<Rightarrow>
                  (let popped = take i (port_lst st) @ drop (Suc i) (port_lst st);
                       cur = (if current_index st \<ge> int (length popped)
                              then int (length popped) - 1 else current_index st)
                   in Inr (Continue, st\<lparr>port_lst := popped, current_index := cur, commands := w\<rparr>))))
      else if key_input = key (CHR ''h'') then Inr (Continue, show_popup Help st)
      else Inr (Continue, st))"

definition ljust :: "nat \<Rightarrow> string \<Rightarrow> string" where
  \<comment> \<open>\<^verbatim>\<open>s.ljust(n)\<close>\<close>
  "ljust n s = s @ replicate (n - length s) (CHR '' '')"

fun draw_rows :: "Port list \<Rightarrow> int \<Rightarrow> int list \<Rightarrow> error + (string \<times> bool) list" where
  \<comment> \<open>the rows drawn for the given indices: the text, and whether it is highlighted\<close>
  "draw_rows ports cur [] = Inr []"
| "draw_rows ports cur (actual_idx # rest) =
     (case py_index ports actual_idx of
        Inl e \<Rightarrow> Inl e
      | Inr i \<Rightarrow>
          (case str_port (ports ! i) of
             Inl e \<Rightarrow> Inl e
           | Inr s \<Rightarrow>
               (case draw_rows ports cur rest of
                  Inl e \<Rightarrow> Inl e
                | Inr rows \<Rightarrow>
                    Inr ((ljust 15 s @ '' '' @ str_allowed (ports ! i), actual_idx = cur) # rows))))"

definition draw :: "int \<Rightarrow> session \<Rightarrow> error + (string \<times> bool) list" where
  \<comment> \<open>the first part of a round of the loop, on a screen of \<open>max_y\<close> lines; with no port
     a message is drawn in place of the rows\<close>
  "draw max_y st =
     (if port_lst st = [] then Inr []
      else
        (let visible_height = max_y - 2;
             (start_index, end_index) =
               viewport (current_index st) (int (length (port_lst st))) visible_height
         in draw_rows (port_lst st) (current_index st) [start_index..end_index - 1]))"

fun main_loop :: "(int \<times> int \<times> string) list \<Rightarrow> session \<Rightarrow> error + flow \<times> session" where
  \<comment> \<open>the loop run on the rounds so far, each with the height of the screen, the key
     and the text entered; \<open>Continue\<close>: the loop goes on with the next round\<close>
  "main_loop [] st = Inr (Continue, st)"
| "main_loop ((max_y, key_input, entered) # rest) st =
     (case draw max_y st of
        Inl e \<Rightarrow> Inl e
      | Inr rows \<Rightarrow>
          (case step key_input entered st of
             Inl e \<Rightarrow> Inl e
           | Inr (Break, st') \<Rightarrow> Inr (Break, st')
           | Inr (Continue, st') \<Rightarrow> main_loop rest st'))"

definition main :: "string \<Rightarrow> (int \<times> int \<times> string) list \<Rightarrow> error + flow \<times> session" where
  \<comment> \<open>the listing that \<^verbatim>\<open>get_ports\<close> reads, then the rounds of the loop\<close>
  "main stdout keys =
     (case get_ports stdout of
        Inl e \<Rightarrow> Inl e
      | Inr ports \<Rightarrow>
          main_loop keys
            \<lparr>port_lst = ports, current_index = 0,
             commands = [[''sudo'', ''ufw'', ''status'', ''numbered'']], popups = []\<rparr>)"

section \<open>The listing and the collection in the words of the specification\<close>

text \<open>
  From the specification, not from the code: a line of the listing has the shape
  \<^verbatim>\<open>[<seq>] <port_id>[/<tcp|udp>] <ALLOW|DENY> ...\<close>. \<open>describes line port\<close> says that
  \<open>line\<close> has this shape and that \<open>port\<close> carries what the line says: the port token, the
  protocol of the suffix (\<^verbatim>\<open>any\<close> without one) and whether the action is \<^verbatim>\<open>ALLOW\<close>.
\<close>

definition describes :: "string \<Rightarrow> Port \<Rightarrow> bool" where
  "describes line port \<longleftrightarrow>
     (\<exists>ws0 ds ws1 sfx ws2 act rest.
        line = ''['' @ ws0 @ ds @ '']'' @ ws1 @ port_num port @ sfx @ ws2 @ act @ rest
      \<and> list_all is_space ws0 \<and> ds \<noteq> [] \<and> list_all is_digit ds
      \<and> ws1 \<noteq> [] \<and> list_all is_space ws1
      \<and> port_num port \<noteq> [] \<and> list_all is_word (port_num port)
      \<and> (sfx = [] \<and> protocol port = ''any''
         \<or> sfx = ''/tcp'' \<and> protocol port = ''tcp''
         \<or> sfx = ''/udp'' \<and> protocol port = ''udp'')
      \<and> ws2 \<noteq> [] \<and> list_all is_space ws2
      \<and> (act = ''ALLOW'' \<and> allowed port \<or> act = ''DENY'' \<and> \<not> allowed port))"

definition port_key :: "Port \<Rightarrow> string \<times> string" where
  \<comment> \<open>the pair that the specification wants unique in the collection\<close>
  "port_key p = (port_num p, protocol p)"

text \<open>
  Two properties of a session, used for the loop: every Port has one of the three
  protocols of its type, and the selection is at least \<open>-1\<close> and is either below the
  length of the collection or 0.
\<close>

definition typed_ports :: "session \<Rightarrow> bool" where
  "typed_ports st = list_all (\<lambda>p. protocol p \<in> {''any'', ''tcp'', ''udp''}) (port_lst st)"

definition cursor_range :: "session \<Rightarrow> bool" where
  "cursor_range st =
     (- 1 \<le> current_index st \<and> (current_index st < int (length (port_lst st)) \<or> current_index st = 0))"

text \<open>Two inputs for the examples: a listing with two rules, and a session with one port.\<close>

definition listing_A :: string where
  "listing_A = ''Status: active\<newline>\<newline>     To                         Action      From\<newline>     --                         ------      ----\<newline>[ 1] 80/tcp                     DENY IN     Anywhere\<newline>[ 2] 22                         ALLOW IN    Anywhere\<newline>[ 3] 80/tcp (v6)                DENY IN     Anywhere (v6)\<newline>[ 4] 22 (v6)                    ALLOW IN    Anywhere (v6)\<newline>''"

definition one_tcp :: session where
  "one_tcp = \<lparr>port_lst = [\<lparr>port_num = ''22'', allowed = True, protocol = ''tcp''\<rparr>],
     current_index = 0, commands = [], popups = []\<rparr>"

section \<open>The scroll window\<close>

text \<open>
  Claim C2. When the selected index is a valid index of the list (\<open>0 \<le> cur < n\<close>) and at
  least one row is visible, the scroll window that \<open>main\<close> computes starts at 0 if the
  selection is above the visible height and at \<open>cur - visible_height + 1\<close> otherwise, ends
  at \<open>min n (start_index + visible_height)\<close>, contains the selection, is no taller than
  the visible height, and lies inside the list.
\<close>

theorem viewport_bounds:
  assumes "0 \<le> cur" and "cur < n" and "1 \<le> visible_height"
  shows "case viewport cur n visible_height of (start_index, end_index) \<Rightarrow>
           start_index = (if cur < visible_height then 0 else cur - visible_height + 1)
         \<and> end_index = min n (start_index + visible_height)
         \<and> start_index \<le> cur \<and> cur < end_index
         \<and> end_index - start_index \<le> visible_height
         \<and> 0 \<le> start_index \<and> end_index \<le> n"
  using assms by (auto simp: viewport_def Let_def)

theorem viewport_bounds_witness:
  "viewport 7 10 3 = (5, 8) \<and> viewport 1 10 3 = (0, 3) \<and> viewport 9 10 20 = (0, 10)"
  using viewport_bounds [of 7 10 3] viewport_bounds [of 1 10 3]  viewport_bounds [of 9 10 20]
  by (simp add: viewport_def)

section \<open>Toggling a port\<close>

lemma str_port_typed:
  assumes "protocol p \<in> {''any'', ''tcp'', ''udp''}"
  shows "str_port p = Inr (if protocol p = ''any'' then port_num p else port_num p @ ''/'' @ protocol p)"
  using assms by (auto simp: str_port_def)

lemma str_port_allowed [simp]: "str_port (p\<lparr>allowed := b\<rparr>) = str_port p"
  by (simp add: str_port_def)

text \<open>
  Claim C7. For a Port whose protocol is one of \<^verbatim>\<open>any\<close>, \<^verbatim>\<open>tcp\<close>, \<^verbatim>\<open>udp\<close>, toggling
  runs one command (\<^verbatim>\<open>deny\<close> if it was allowed, \<^verbatim>\<open>allow\<close> otherwise) for the port as
  \<open>str_port\<close> writes it and flips \<open>allowed\<close>; toggling again runs the opposite command
  for the same text and gives back the Port as it was. Two commands have been run.
\<close>

theorem toggle_twice:
  assumes "protocol p \<in> {''any'', ''tcp'', ''udp''}"
  shows "\<exists>s. str_port p = Inr s
         \<and> toggle p w =
             Inr (p\<lparr>allowed := \<not> allowed p\<rparr>,
                  w @ [[''sudo'', ''ufw'', if allowed p then ''deny'' else ''allow'', s]])
         \<and> toggle (p\<lparr>allowed := \<not> allowed p\<rparr>)
               (w @ [[''sudo'', ''ufw'', if allowed p then ''deny'' else ''allow'', s]])
             = Inr (p, w @ [[''sudo'', ''ufw'', if allowed p then ''deny'' else ''allow'', s],
                            [''sudo'', ''ufw'', if allowed p then ''allow'' else ''deny'', s]])"
proof -
  from assms obtain s where s: "str_port p = Inr s"
    using str_port_typed by blast
  show ?thesis
  proof (cases "allowed p")
    case True
    then have "p\<lparr>allowed := True\<rparr> = p" by simp
    with True s show ?thesis
      by (simp add: toggle_def allow_def deny_def)
  next
    case False
    then have "p\<lparr>allowed := False\<rparr> = p" by simp
    with False s show ?thesis
      by (simp add: toggle_def allow_def deny_def)
  qed
qed

theorem toggle_twice_witness:
  "toggle \<lparr>port_num = ''80'', allowed = True, protocol = ''tcp''\<rparr> [] =
     Inr (\<lparr>port_num = ''80'', allowed = False, protocol = ''tcp''\<rparr>, [[''sudo'', ''ufw'', ''deny'', ''80/tcp'']])
   \<and> toggle \<lparr>port_num = ''80'', allowed = False, protocol = ''tcp''\<rparr> [[''sudo'', ''ufw'', ''deny'', ''80/tcp'']] =
     Inr (\<lparr>port_num = ''80'', allowed = True, protocol = ''tcp''\<rparr>,
          [[''sudo'', ''ufw'', ''deny'', ''80/tcp''], [''sudo'', ''ufw'', ''allow'', ''80/tcp'']])"
  using toggle_twice [of "\<lparr>port_num = ''80'', allowed = True, protocol = ''tcp''\<rparr>" "[]"]
  by (simp add: str_port_def)

section \<open>What a match says about the text\<close>

text \<open>
  Every state in which \<open>backtrack\<close> can end splits the text into the part the pattern
  took and the rest; the lemmas below say so constructor by constructor, and then for a
  pattern followed by the rest of a sequence.
\<close>

lemma greedy_iff: "k \<in> set (greedy P s) \<longleftrightarrow> k \<le> length (takeWhile P s)"
proof (induction s arbitrary: k)
  case Nil
  then show ?case by simp
next
  case (Cons c cs)
  then show ?case by (cases k) auto
qed

lemma takeWhile_prefix_len:
  "list_all P w \<Longrightarrow> length w \<le> length (takeWhile P (w @ t))"
  by (induction w) auto

lemma take_le_takeWhile:
  "k \<le> length (takeWhile P s) \<Longrightarrow> list_all P (take k s)"
proof (induction s arbitrary: k)
  case Nil
  then show ?case by simp
next
  case (Cons c cs)
  then show ?case by (cases k) (auto split: if_splits)
qed

lemma greedy_split:
  "k \<in> set (greedy P s) \<and> t = drop k s \<longleftrightarrow> (\<exists>w. s = w @ t \<and> list_all P w \<and> k = length w)"
proof
  assume a: "k \<in> set (greedy P s) \<and> t = drop k s"
  then have k: "k \<le> length (takeWhile P s)"
    by (simp add: greedy_iff)
  have "k \<le> length s"
    using k length_takeWhile_le [of P s] by linarith
  then have "s = take k s @ t \<and> list_all P (take k s) \<and> k = length (take k s)"
    using a k by (simp add: take_le_takeWhile)
  then show "\<exists>w. s = w @ t \<and> list_all P w \<and> k = length w"
    by blast
next
  assume "\<exists>w. s = w @ t \<and> list_all P w \<and> k = length w"
  then obtain w where w: "s = w @ t" "list_all P w" "k = length w"
    by blast
  then show "k \<in> set (greedy P s) \<and> t = drop k s"
    by (simp add: greedy_iff takeWhile_prefix_len)
qed

lemma in_Bol: "(q, t, h) \<in> set (backtrack Bol (p, s, g)) \<longleftrightarrow> p = 0 \<and> q = 0 \<and> t = s \<and> h = g"
  by auto

lemma in_Lit:
  "(q, t, h) \<in> set (backtrack (Lit cs) (p, s, g)) \<longleftrightarrow> s = cs @ t \<and> q = p + length cs \<and> h = g"
proof -
  have "take (length cs) s = cs \<and> t = drop (length cs) s \<longleftrightarrow> s = cs @ t"
    by (metis append_eq_conv_conj)
  then show ?thesis by auto
qed

lemma in_Star:
  "(q, t, h) \<in> set (backtrack (Star P) (p, s, g)) \<longleftrightarrow>
     (\<exists>w. s = w @ t \<and> list_all P w \<and> q = p + length w) \<and> h = g"
proof -
  have "(q, t, h) \<in> set (backtrack (Star P) (p, s, g)) \<longleftrightarrow>
        (\<exists>k. (k \<in> set (greedy P s) \<and> t = drop k s) \<and> q = p + k) \<and> h = g"
    by auto
  then show ?thesis
    unfolding greedy_split by blast
qed

lemma in_Plus:
  "(q, t, h) \<in> set (backtrack (Plus P) (p, s, g)) \<longleftrightarrow>
     (\<exists>w. s = w @ t \<and> w \<noteq> [] \<and> list_all P w \<and> q = p + length w) \<and> h = g"
proof -
  have "(q, t, h) \<in> set (backtrack (Plus P) (p, s, g)) \<longleftrightarrow>
        (\<exists>k. (k \<in> set (greedy P s) \<and> t = drop k s) \<and> 0 < k \<and> q = p + k) \<and> h = g"
    by auto
  then show ?thesis
    unfolding greedy_split by auto
qed

lemma in_Seq:
  "x \<in> set (backtrack (Seq a b) st) \<longleftrightarrow> (\<exists>m \<in> set (backtrack a st). x \<in> set (backtrack b m))"
  by simp

lemma in_Opt: "x \<in> set (backtrack (Opt r) st) \<longleftrightarrow> x \<in> set (backtrack r st) \<or> x = st"
  by auto

lemma in_Alt:
  "x \<in> set (backtrack (Alt a b) st) \<longleftrightarrow> x \<in> set (backtrack a st) \<or> x \<in> set (backtrack b st)"
  by simp

lemma in_Grp:
  "(q, t, h) \<in> set (backtrack (Grp i r) (p, s, g)) \<longleftrightarrow>
     (\<exists>h'. (q, t, h') \<in> set (backtrack r (p, s, g)) \<and> h = h'(i \<mapsto> take (q - p) s))"
  by force

lemma re_match_Some:
  "re_match r s = Some g \<Longrightarrow> \<exists>q t. (q, t, g) \<in> set (backtrack r (0, s, Map.empty))"
  by (auto simp: re_match_def split: list.splits)

lemmas in_backtrack = in_Bol in_Lit in_Star in_Plus in_Seq in_Opt in_Alt in_Grp

lemma add_re_groups:
  assumes "re_match add_re s = Some g"
  shows "g 3 \<in> {None, Some ''tcp'', Some ''udp''} \<and> (\<exists>w. g 2 = Some w \<and> w \<noteq> [])"
  using re_match_Some [OF assms] unfolding add_re_def tcp_udp_def seqs.simps
  by (auto simp: in_backtrack simp del: backtrack.simps)

lemma in_Seq3:
  "x \<in> set (backtrack (Seq a b) st) \<longleftrightarrow>
     (\<exists>p s g. (p, s, g) \<in> set (backtrack a st) \<and> x \<in> set (backtrack b (p, s, g)))"
  by auto

lemma Seq_Bol:
  "(q, t, h) \<in> set (backtrack (Seq Bol r) (0, s, g)) \<Longrightarrow> (q, t, h) \<in> set (backtrack r (0, s, g))"
  by simp

lemma Seq_Lit:
  assumes "(q, t, h) \<in> set (backtrack (Seq (Lit cs) r) (p, s, g))"
  shows "\<exists>t' p'. s = cs @ t' \<and> (q, t, h) \<in> set (backtrack r (p', t', g))"
  using assms unfolding in_Seq3 in_Lit by blast

lemma Seq_Star:
  assumes "(q, t, h) \<in> set (backtrack (Seq (Star P) r) (p, s, g))"
  shows "\<exists>w t' p'. s = w @ t' \<and> list_all P w \<and> (q, t, h) \<in> set (backtrack r (p', t', g))"
  using assms unfolding in_Seq3 in_Star by blast

lemma Seq_Plus:
  assumes "(q, t, h) \<in> set (backtrack (Seq (Plus P) r) (p, s, g))"
  shows "\<exists>w t' p'. s = w @ t' \<and> w \<noteq> [] \<and> list_all P w
           \<and> (q, t, h) \<in> set (backtrack r (p', t', g))"
  using assms unfolding in_Seq3 in_Plus by blast

lemma Seq_Grp_Plus:
  assumes "(q, t, h) \<in> set (backtrack (Seq (Grp i (Plus P)) r) (p, s, g))"
  shows "\<exists>w t' p'. s = w @ t' \<and> w \<noteq> [] \<and> list_all P w
           \<and> (q, t, h) \<in> set (backtrack r (p', t', g(i \<mapsto> w)))"
proof -
  from assms obtain p' t' g'
    where a: "(p', t', g') \<in> set (backtrack (Grp i (Plus P)) (p, s, g))"
      and b: "(q, t, h) \<in> set (backtrack r (p', t', g'))"
    unfolding in_Seq3 by blast
  from a obtain w
    where w: "s = w @ t'" "w \<noteq> []" "list_all P w" "p' = p + length w"
      and g': "g' = g(i \<mapsto> take (p' - p) s)"
    unfolding in_Grp in_Plus by blast
  from w g' have "g' = g(i \<mapsto> w)"
    by simp
  with w b show ?thesis
    by blast
qed

lemma Grp_Alt_Lit:
  "(q, t, h) \<in> set (backtrack (Grp i (Alt (Lit a) (Lit b))) (p, s, g)) \<longleftrightarrow>
     s = a @ t \<and> q = p + length a \<and> h = g(i \<mapsto> a) \<or> s = b @ t \<and> q = p + length b \<and> h = g(i \<mapsto> b)"
  unfolding in_Grp in_Alt in_Lit by auto

lemma Seq_Opt_suffix:
  assumes "(q, t, h) \<in> set (backtrack (Seq (Opt (Seq (Lit c) (Grp i (Alt (Lit a) (Lit b))))) r) (p, s, g))"
  shows "\<exists>sfx t' p' g'. s = sfx @ t' \<and> (q, t, h) \<in> set (backtrack r (p', t', g'))
           \<and> (sfx = [] \<and> g' = g \<or> sfx = c @ a \<and> g' = g(i \<mapsto> a) \<or> sfx = c @ b \<and> g' = g(i \<mapsto> b))"
proof -
  from assms obtain p' t' g'
    where a: "(p', t', g') \<in> set (backtrack (Opt (Seq (Lit c) (Grp i (Alt (Lit a) (Lit b))))) (p, s, g))"
      and b: "(q, t, h) \<in> set (backtrack r (p', t', g'))"
    unfolding in_Seq3 by blast
  from a consider
      (present) "(p', t', g') \<in> set (backtrack (Seq (Lit c) (Grp i (Alt (Lit a) (Lit b)))) (p, s, g))"
    | (absent) "(p', t', g') = (p, s, g)"
    unfolding in_Opt by blast
  then show ?thesis
  proof cases
    case present
    from Seq_Lit [OF present] obtain t1
      where "s = c @ t1"
        and "\<exists>p1. (p', t', g') \<in> set (backtrack (Grp i (Alt (Lit a) (Lit b))) (p1, t1, g))"
      by blast
    then have "s = (c @ a) @ t' \<and> g' = g(i \<mapsto> a) \<or> s = (c @ b) @ t' \<and> g' = g(i \<mapsto> b)"
      unfolding Grp_Alt_Lit by auto
    with b show ?thesis
      by blast
  next
    case absent
    then have "s = [] @ t'" "g' = g"
      by simp_all
    with b show ?thesis
      by blast
  qed
qed

section \<open>Reading the listing\<close>

lemma status_re_describes:
  assumes "re_match status_re line = Some g"
  shows "describes line (status_port g)"
proof -
  let ?r9 = "Grp 3 (Alt (Lit ''ALLOW'') (Lit ''DENY''))"
  let ?r8 = "Seq (Plus is_space) ?r9"
  let ?r7 = "Seq (Opt (Seq (Lit ''/'') (Grp 2 (Alt (Lit ''tcp'') (Lit ''udp''))))) ?r8"
  let ?r6 = "Seq (Grp 1 (Plus is_word)) ?r7"
  let ?r5 = "Seq (Plus is_space) ?r6"
  let ?r4 = "Seq (Lit '']'') ?r5"
  let ?r3 = "Seq (Plus is_digit) ?r4"
  let ?r2 = "Seq (Star is_space) ?r3"
  let ?r1 = "Seq (Lit ''['') ?r2"
  from re_match_Some [OF assms] obtain q t
    where "(q, t, g) \<in> set (backtrack status_re (0, line, Map.empty))"
    by blast
  then have "(q, t, g) \<in> set (backtrack (Seq Bol ?r1) (0, line, Map.empty))"
    by (simp only: status_re_def tcp_udp_def seqs.simps)
  then have m0: "(q, t, g) \<in> set (backtrack ?r1 (0, line, Map.empty))"
    by (rule Seq_Bol)
  from Seq_Lit [OF m0] obtain t1 p1
    where l1: "line = ''['' @ t1" and m1: "(q, t, g) \<in> set (backtrack ?r2 (p1, t1, Map.empty))"
    by blast
  from Seq_Star [OF m1] obtain ws0 t2 p2
    where l2: "t1 = ws0 @ t2" "list_all is_space ws0"
      and m2: "(q, t, g) \<in> set (backtrack ?r3 (p2, t2, Map.empty))"
    by blast
  from Seq_Plus [OF m2] obtain ds t3 p3
    where l3: "t2 = ds @ t3" "ds \<noteq> []" "list_all is_digit ds"
      and m3: "(q, t, g) \<in> set (backtrack ?r4 (p3, t3, Map.empty))"
    by blast
  from Seq_Lit [OF m3] obtain t4 p4
    where l4: "t3 = '']'' @ t4" and m4: "(q, t, g) \<in> set (backtrack ?r5 (p4, t4, Map.empty))"
    by blast
  from Seq_Plus [OF m4] obtain ws1 t5 p5
    where l5: "t4 = ws1 @ t5" "ws1 \<noteq> []" "list_all is_space ws1"
      and m5: "(q, t, g) \<in> set (backtrack ?r6 (p5, t5, Map.empty))"
    by blast
  from Seq_Grp_Plus [OF m5] obtain w t6 p6
    where l6: "t5 = w @ t6" "w \<noteq> []" "list_all is_word w"
      and m6: "(q, t, g) \<in> set (backtrack ?r7 (p6, t6, [1 \<mapsto> w]))"
    by blast
  from Seq_Opt_suffix [OF m6] obtain sfx t7 p7 g7
    where l7: "t6 = sfx @ t7"
      and s7: "sfx = [] \<and> g7 = [1 \<mapsto> w] \<or> sfx = ''/'' @ ''tcp'' \<and> g7 = [1 \<mapsto> w, 2 \<mapsto> ''tcp'']
          \<or> sfx = ''/'' @ ''udp'' \<and> g7 = [1 \<mapsto> w, 2 \<mapsto> ''udp'']"
      and m7: "(q, t, g) \<in> set (backtrack ?r8 (p7, t7, g7))"
    by blast
  from Seq_Plus [OF m7] obtain ws2 t8 p8
    where l8: "t7 = ws2 @ t8" "ws2 \<noteq> []" "list_all is_space ws2"
      and m8: "(q, t, g) \<in> set (backtrack ?r9 (p8, t8, g7))"
    by blast
  from m8 have "t8 = ''ALLOW'' @ t \<and> g = g7(3 \<mapsto> ''ALLOW'') \<or> t8 = ''DENY'' @ t \<and> g = g7(3 \<mapsto> ''DENY'')"
    unfolding Grp_Alt_Lit by blast
  then obtain act
    where l9: "t8 = act @ t" "act = ''ALLOW'' \<or> act = ''DENY''" "g = g7(3 \<mapsto> act)"
    by blast
  have line: "line = ''['' @ ws0 @ ds @ '']'' @ ws1 @ w @ sfx @ ws2 @ act @ t"
    unfolding l1 l2 l3 l4 l5 l6 l7 l8 l9 by simp
  have g1: "g 1 = Some w" and g3: "g 3 = Some act"
    using s7 l9 by auto
  have g2: "sfx = [] \<and> g 2 = None \<or> sfx = ''/tcp'' \<and> g 2 = Some ''tcp''
      \<or> sfx = ''/udp'' \<and> g 2 = Some ''udp''"
    using s7 l9 by auto
  have pn: "port_num (status_port g) = w"
    using g1 by (simp add: status_port_def)
  have pr: "sfx = [] \<and> protocol (status_port g) = ''any''
         \<or> sfx = ''/tcp'' \<and> protocol (status_port g) = ''tcp''
         \<or> sfx = ''/udp'' \<and> protocol (status_port g) = ''udp''"
    using g2 by (auto simp: status_port_def)
  have al: "act = ''ALLOW'' \<and> allowed (status_port g) \<or> act = ''DENY'' \<and> \<not> allowed (status_port g)"
    using l9(2) g3 by (auto simp: status_port_def)
  show ?thesis
    unfolding describes_def pn
  proof (intro exI conjI)
    show "line = ''['' @ ws0 @ ds @ '']'' @ ws1 @ w @ sfx @ ws2 @ act @ t"
      by (fact line)
    show "list_all is_space ws0" "ds \<noteq> []" "list_all is_digit ds"
      "ws1 \<noteq> []" "list_all is_space ws1" "w \<noteq> []" "list_all is_word w"
      "ws2 \<noteq> []" "list_all is_space ws2"
      by fact+
    show "sfx = [] \<and> protocol (status_port g) = ''any''
         \<or> sfx = ''/tcp'' \<and> protocol (status_port g) = ''tcp''
         \<or> sfx = ''/udp'' \<and> protocol (status_port g) = ''udp''"
      by (fact pr)
    show "act = ''ALLOW'' \<and> allowed (status_port g) \<or> act = ''DENY'' \<and> \<not> allowed (status_port g)"
      by (fact al)
  qed
qed


lemma get_ports_loop_all:
  assumes "list_all (\<lambda>line. re_match status_re line \<noteq> None) ls"
  shows "get_ports_loop acc ls = Inr (acc @ map (\<lambda>line. status_port (the (re_match status_re line))) ls)"
  using assms by (induction ls arbitrary: acc) auto

lemma describes_all:
  assumes "list_all (\<lambda>line. re_match status_re line \<noteq> None) ls"
  shows "list_all2 describes ls (map (\<lambda>line. status_port (the (re_match status_re line))) ls)"
  using assms by (induction ls) (auto simp: status_re_describes)

text \<open>A line describes at most one Port: the parts of the shape cannot be cut in two ways.\<close>

lemma span_unique:
  assumes "u @ x = u' @ x'" and "list_all P u" and "list_all P u'"
    and "x = [] \<or> \<not> P (hd x)" and "x' = [] \<or> \<not> P (hd x')"
  shows "u = u' \<and> x = x'"
proof -
  have "takeWhile P (u @ x) = u"
    using assms(2,4) by (cases x) (auto simp: list_all_iff)
  moreover have "takeWhile P (u' @ x') = u'"
    using assms(3,5) by (cases x') (auto simp: list_all_iff)
  ultimately have "u = u'"
    using assms(1) by simp
  with assms(1) show ?thesis
    by simp
qed

lemma digit_not_space: "is_digit c \<Longrightarrow> \<not> is_space c"
  by (auto simp: is_digit_def is_space_def Let_def)

lemma word_not_space: "is_word c \<Longrightarrow> \<not> is_space c"
  by (auto simp: is_word_def is_space_def Let_def)

lemma class_facts:
  "\<not> is_digit (CHR '']'')" "\<not> is_word (CHR ''/'')" "\<not> is_space (CHR ''/'')"
  "\<not> is_space (CHR ''A'')" "\<not> is_space (CHR ''D'')"
  by (simp_all add: is_digit_def is_word_def is_space_def ord_def)

lemma hd_class: "w \<noteq> [] \<Longrightarrow> list_all P w \<Longrightarrow> P (hd (w @ r))"
  by (cases w) auto

lemma describes_functional:
  assumes "describes line p" and "describes line p'"
  shows "p = p'"
proof -
  from assms(1) obtain ws0 ds ws1 sfx ws2 act rest where
    l: "line = ''['' @ ws0 @ ds @ '']'' @ ws1 @ port_num p @ sfx @ ws2 @ act @ rest"
    and c: "list_all is_space ws0" "ds \<noteq> []" "list_all is_digit ds"
      "ws1 \<noteq> []" "list_all is_space ws1" "port_num p \<noteq> []" "list_all is_word (port_num p)"
      "ws2 \<noteq> []" "list_all is_space ws2"
    and s: "sfx = [] \<and> protocol p = ''any'' \<or> sfx = ''/tcp'' \<and> protocol p = ''tcp''
         \<or> sfx = ''/udp'' \<and> protocol p = ''udp''"
    and a: "act = ''ALLOW'' \<and> allowed p \<or> act = ''DENY'' \<and> \<not> allowed p"
    unfolding describes_def by blast
  from assms(2) obtain ws0' ds' ws1' sfx' ws2' act' rest' where
    l': "line = ''['' @ ws0' @ ds' @ '']'' @ ws1' @ port_num p' @ sfx' @ ws2' @ act' @ rest'"
    and c': "list_all is_space ws0'" "ds' \<noteq> []" "list_all is_digit ds'"
      "ws1' \<noteq> []" "list_all is_space ws1'" "port_num p' \<noteq> []" "list_all is_word (port_num p')"
      "ws2' \<noteq> []" "list_all is_space ws2'"
    and s': "sfx' = [] \<and> protocol p' = ''any'' \<or> sfx' = ''/tcp'' \<and> protocol p' = ''tcp''
         \<or> sfx' = ''/udp'' \<and> protocol p' = ''udp''"
    and a': "act' = ''ALLOW'' \<and> allowed p' \<or> act' = ''DENY'' \<and> \<not> allowed p'"
    unfolding describes_def by blast
  let ?r4 = "sfx @ ws2 @ act @ rest" and ?r4' = "sfx' @ ws2' @ act' @ rest'"
  let ?r3 = "port_num p @ ?r4" and ?r3' = "port_num p' @ ?r4'"
  let ?r2 = "'']'' @ ws1 @ ?r3" and ?r2' = "'']'' @ ws1' @ ?r3'"
  let ?r1 = "ds @ ?r2" and ?r1' = "ds' @ ?r2'"
  have e0: "ws0 @ ?r1 = ws0' @ ?r1'"
    using l l' by simp
  have "\<not> is_space (hd ?r1)" "\<not> is_space (hd ?r1')"
    using c(2,3) c'(2,3) hd_class [of ds is_digit] hd_class [of ds' is_digit] digit_not_space
    by blast+
  with e0 c(1) c'(1) have e1: "?r1 = ?r1'"
    using span_unique [of ws0 ?r1 ws0' ?r1' is_space] by blast
  have "\<not> is_digit (hd ?r2)" "\<not> is_digit (hd ?r2')"
    by (simp_all add: class_facts)
  with e1 c(3) c'(3) have e2: "?r2 = ?r2'"
    using span_unique [of ds ?r2 ds' ?r2' is_digit] by blast
  then have e2': "ws1 @ ?r3 = ws1' @ ?r3'"
    by simp
  have "\<not> is_space (hd ?r3)" "\<not> is_space (hd ?r3')"
    using c(6,7) c'(6,7) hd_class [of "port_num p" is_word] hd_class [of "port_num p'" is_word]
      word_not_space by blast+
  with e2' c(5) c'(5) have e3: "?r3 = ?r3'"
    using span_unique [of ws1 ?r3 ws1' ?r3' is_space] by blast
  have sp: "is_space (hd (ws2 @ act @ rest))" "is_space (hd (ws2' @ act' @ rest'))"
    using c(8,9) c'(8,9) hd_class [of ws2 is_space] hd_class [of ws2' is_space] by blast+
  have nw: "\<not> is_word (hd ?r4)"
    using s sp(1) word_not_space by (auto simp: class_facts)
  have nw': "\<not> is_word (hd ?r4')"
    using s' sp(2) word_not_space by (auto simp: class_facts)
  from e3 c(7) c'(7) nw nw' have e4: "port_num p = port_num p'" "?r4 = ?r4'"
    using span_unique [of "port_num p" ?r4 "port_num p'" ?r4' is_word] by blast+
  have ns: "hd (ws2 @ act @ rest) \<noteq> CHR ''/''" "hd (ws2' @ act' @ rest') \<noteq> CHR ''/''"
    using sp class_facts(3) by auto
  have hh: "hd ?r4 = hd ?r4'"
    using e4(2) by simp
  have h: "hd ?r4 = (if sfx = [] then hd (ws2 @ act @ rest) else CHR ''/'')"
    using s by auto
  have h': "hd ?r4' = (if sfx' = [] then hd (ws2' @ act' @ rest') else CHR ''/'')"
    using s' by auto
  have both: "sfx = [] \<longleftrightarrow> sfx' = []"
    using hh ns unfolding h h' by (metis (full_types))
  have e5: "sfx = sfx' \<and> protocol p = protocol p'"
    using s s' e4(2) both by (elim disjE) auto
  then have e6: "ws2 @ act @ rest = ws2' @ act' @ rest'"
    using e4(2) by simp
  have "\<not> is_space (hd (act @ rest))" "\<not> is_space (hd (act' @ rest'))"
    using a a' by (auto simp: class_facts)
  with e6 c(9) c'(9) have e7: "act @ rest = act' @ rest'"
    using span_unique [of ws2 "act @ rest" ws2' "act' @ rest'" is_space] by blast
  have "allowed p = allowed p'"
    using a a' e7 by (elim disjE) auto
  with e4(1) e5 show ?thesis
    by simp
qed

text \<open>
  Claim C1, as stated, fails: an even number of numbered lines is not enough for
  \<open>get_ports\<close> to succeed. The two lines \<^verbatim>\<open>[1]\<close> and \<^verbatim>\<open>[2]\<close> start with a bracketed
  number, the first is kept, it does not match the pattern of a rule, and \<open>get_ports\<close>
  raises \<^verbatim>\<open>ValueError('Invalid line: [1]')\<close>.
\<close>

theorem get_ports_even_counterexample:
  "length (port_lines ''[1]\<newline>[2]'') = 2 * 1
   \<and> get_ports ''[1]\<newline>[2]'' = Inl (ValueError ''Invalid line: [1]'')"
  by code_simp

text \<open>
  Claim C1, amended. When the listing has \<open>2 * n\<close> numbered lines and each of the first
  \<open>n\<close> of them matches the pattern of a rule, \<open>get_ports\<close> returns \<open>n\<close> Ports: the Ports
  that the first \<open>n\<close> numbered lines describe, one per line, sorted (stably) by the port
  token as a string.
\<close>

theorem get_ports_even:
  assumes "length (port_lines stdout) = 2 * n"
    and "list_all (\<lambda>line. re_match status_re line \<noteq> None) (take n (port_lines stdout))"
  shows "\<exists>unsorted.
           list_all2 describes (take n (port_lines stdout)) unsorted
         \<and> get_ports stdout = Inr (sort_key port_num unsorted)
         \<and> length (sort_key port_num unsorted) = n
         \<and> sorted (map port_num (sort_key port_num unsorted))
         \<and> mset (sort_key port_num unsorted) = mset unsorted"
proof -
  let ?ls = "take n (port_lines stdout)"
  let ?unsorted = "map (\<lambda>line. status_port (the (re_match status_re line))) ?ls"
  have half: "take (length (port_lines stdout) div 2) (port_lines stdout) = ?ls"
    using assms(1) by simp
  have "get_ports stdout = Inr (sort_key port_num ?unsorted)"
    using assms(1) get_ports_loop_all [OF assms(2), of "[]"]
    by (simp add: get_ports_def Let_def half)
  moreover have "list_all2 describes ?ls ?unsorted"
    using assms(2) by (rule describes_all)
  moreover have "length (sort_key port_num ?unsorted) = n"
    using assms(1) by simp
  ultimately show ?thesis
    by (intro exI [of _ ?unsorted]) simp
qed

lemma port_lines_A:
  "take 2 (port_lines listing_A) =
     [''[ 1] 80/tcp                     DENY IN     Anywhere'',
      ''[ 2] 22                         ALLOW IN    Anywhere'']
   \<and> length (port_lines listing_A) = 4"
  by code_simp

lemma status_A:
  "re_match status_re ''[ 1] 80/tcp                     DENY IN     Anywhere'' \<noteq> None
   \<and> re_match status_re ''[ 2] 22                         ALLOW IN    Anywhere'' \<noteq> None"
  by code_simp

lemma get_ports_A: "get_ports listing_A = Inr [\<lparr>port_num = ''22'', allowed = True, protocol = ''any''\<rparr>,
     \<lparr>port_num = ''80'', allowed = False, protocol = ''tcp''\<rparr>]"
  by code_simp

theorem get_ports_even_witness:
  "length (port_lines listing_A) = 2 * 2
   \<and> list_all (\<lambda>line. re_match status_re line \<noteq> None) (take 2 (port_lines listing_A))
   \<and> (\<exists>unsorted.
           list_all2 describes (take 2 (port_lines listing_A)) unsorted
         \<and> get_ports listing_A = Inr (sort_key port_num unsorted)
         \<and> length (sort_key port_num unsorted) = 2
         \<and> sorted (map port_num (sort_key port_num unsorted))
         \<and> mset (sort_key port_num unsorted) = mset unsorted)
   \<and> get_ports listing_A = Inr [\<lparr>port_num = ''22'', allowed = True, protocol = ''any''\<rparr>,
       \<lparr>port_num = ''80'', allowed = False, protocol = ''tcp''\<rparr>]"
proof -
  have h1: "length (port_lines listing_A) = 2 * 2"
    using port_lines_A by simp
  have h2: "list_all (\<lambda>line. re_match status_re line \<noteq> None) (take 2 (port_lines listing_A))"
    using port_lines_A status_A by simp
  show ?thesis
    using h1 h2 get_ports_even [OF h1 h2] get_ports_A by blast
qed

text \<open>
  Claim C9. When the number of lines that start with a bracketed number is odd,
  \<open>get_ports\<close> raises the ValueError of the parity check and returns no Port.
\<close>

theorem get_ports_odd:
  assumes "odd (length (port_lines stdout))"
  shows "get_ports stdout = Inl (ValueError ''The amount of ports are not diviced by 2'')"
  using assms by (simp add: get_ports_def Let_def odd_iff_mod_2_eq_one)

lemma port_lines_ex1: "port_lines ''Status: active\<newline>[ 1] 22 ALLOW IN Anywhere'' = [''[ 1] 22 ALLOW IN Anywhere'']"
  by code_simp

theorem get_ports_odd_witness:
  "odd (length (port_lines ''Status: active\<newline>[ 1] 22 ALLOW IN Anywhere''))
   \<and> get_ports ''Status: active\<newline>[ 1] 22 ALLOW IN Anywhere''
       = Inl (ValueError ''The amount of ports are not diviced by 2'')"
  using get_ports_odd [of "''Status: active\<newline>[ 1] 22 ALLOW IN Anywhere''"]
  by (simp add: port_lines_ex1)

section \<open>Adding ports\<close>

lemma strip_spaces: "list_all is_space s \<Longrightarrow> strip s = []"
proof -
  assume a: "list_all is_space s"
  then have h: "dropWhile is_space s = []"
    by (induction s) auto
  show ?thesis
    unfolding strip_def h by simp
qed

text \<open>
  Claim C10. When the text entered in the input window consists of whitespace only (or
  is empty), the input window returns the empty string and the round of the loop for
  the key \<^verbatim>\<open>a\<close> leaves the session as it was: the same ports, the same selection, no
  command run, no popup shown.
\<close>

theorem add_empty_noop:
  assumes "list_all is_space entered"
  shows "input_window entered = [] \<and> step (key CHR ''a'') entered st = Inr (Continue, st)"
  using assms by (simp add: step_def input_window_def strip_spaces key_def ord_def KEY_UP_def KEY_DOWN_def)

theorem add_empty_noop_witness:
  "list_all is_space [CHR '' '', CHR 0x09, CHR '' '']
   \<and> step (key CHR ''a'') [CHR '' '', CHR 0x09, CHR '' ''] \<lparr>port_lst = [], current_index = 0, commands = [], popups = []\<rparr>
     = Inr (Continue, \<lparr>port_lst = [], current_index = 0, commands = [], popups = []\<rparr>)"
  using add_empty_noop [of "[CHR '' '', CHR 0x09, CHR '' '']" "\<lparr>port_lst = [], current_index = 0, commands = [], popups = []\<rparr>"]
  by (simp add: is_space_def ord_def)

lemma input_port_typed:
  assumes "re_match add_re port_input = Some g"
  shows "protocol (input_port g) \<in> {''any'', ''tcp'', ''udp''}"
  using add_re_groups [OF assms] by (auto simp: input_port_def)

lemma add_port_Some:
  assumes "re_match add_re port_input = Some g"
  shows "\<exists>s. str_port (input_port g) = Inr s
         \<and> add_port port_input st =
             (if port_num (input_port g) \<in> set (map port_num (port_lst st))
              then Inr (st\<lparr>popups := popups st @
                     [Popup (''Port '' @ port_num (input_port g) @ '' already exists'') None]\<rparr>)
              else Inr (st\<lparr>port_lst := port_lst st @ [input_port g],
                     commands := commands st @
                       [[''sudo'', ''ufw'', if allowed (input_port g) then ''allow'' else ''deny'', s]]\<rparr>))"
proof -
  from input_port_typed [OF assms] obtain s where s: "str_port (input_port g) = Inr s"
    using str_port_typed by blast
  have t: "allowed (input_port g) \<Longrightarrow> (input_port g)\<lparr>allowed := True\<rparr> = input_port g"
    by simp
  have f: "\<not> allowed (input_port g) \<Longrightarrow> (input_port g)\<lparr>allowed := False\<rparr> = input_port g"
    by simp
  show ?thesis
    using assms s t f
    by (simp add: add_port_def Let_def show_popup_def allow_def deny_def)
qed

text \<open>
  Claim C3, as stated, fails: the check for a duplicate looks at the port number alone.
  With \<^verbatim>\<open>22/tcp\<close> in the collection the item \<^verbatim>\<open>22/udp\<close> is refused, although the pair
  (22, udp) is not in the collection.
\<close>

theorem add_port_duplicate_counterexample:
  "map_option input_port (re_match add_re ''22/udp'')
     = Some \<lparr>port_num = ''22'', allowed = True, protocol = ''udp''\<rparr>
   \<and> port_key \<lparr>port_num = ''22'', allowed = True, protocol = ''udp''\<rparr>
       \<notin> set (map port_key (port_lst one_tcp))
   \<and> add_port ''22/udp'' one_tcp = Inr (one_tcp\<lparr>popups := [Popup ''Port 22 already exists'' None]\<rparr>)"
  by (simp add: re_match_def add_re_def tcp_udp_def is_word_def ord_def input_port_def
      port_key_def one_tcp_def add_port_def show_popup_def)

text \<open>
  Claim C3, amended. For an item of the add-ports input that the pattern matches: the
  item is refused exactly when its port number is the port number of a Port in the
  collection, whatever the protocols; then the popup \<^verbatim>\<open>Port <n> already exists\<close> is
  shown, the collection is unchanged and no command is run. Otherwise the \<^verbatim>\<open>allow\<close> or
  \<^verbatim>\<open>deny\<close> command is run for the Port, as its \<open>allowed\<close> says, and the Port is appended.
\<close>

theorem add_port_duplicate:
  assumes "re_match add_re port_input = Some g"
  shows "\<exists>s. str_port (input_port g) = Inr s
         \<and> add_port port_input st =
             (if port_num (input_port g) \<in> set (map port_num (port_lst st))
              then Inr (st\<lparr>popups := popups st @
                     [Popup (''Port '' @ port_num (input_port g) @ '' already exists'') None]\<rparr>)
              else Inr (st\<lparr>port_lst := port_lst st @ [input_port g],
                     commands := commands st @
                       [[''sudo'', ''ufw'', if allowed (input_port g) then ''allow'' else ''deny'', s]]\<rparr>))"
  using assms by (rule add_port_Some)

lemma add_re_80:
  "re_match add_re ''!80'' = Some [1 \<mapsto> ''!'', 2 \<mapsto> ''80'']"
  by (simp add: re_match_def add_re_def tcp_udp_def is_word_def ord_def)

theorem add_port_duplicate_witness:
  "add_port ''!80'' one_tcp =
     Inr \<lparr>port_lst = [\<lparr>port_num = ''22'', allowed = True, protocol = ''tcp''\<rparr>,
                      \<lparr>port_num = ''80'', allowed = False, protocol = ''any''\<rparr>],
          current_index = 0, commands = [[''sudo'', ''ufw'', ''deny'', ''80'']], popups = []\<rparr>"
  using add_port_duplicate [OF add_re_80, of one_tcp]
  by (simp add: input_port_def str_port_def one_tcp_def)

text \<open>
  Claim C4. With an empty collection, the add-ports input \<^verbatim>\<open>443/tcp !25\<close> runs
  \<^verbatim>\<open>allow 443/tcp\<close> and then \<^verbatim>\<open>deny 25\<close>, and nothing else, and leaves the collection
  \<^verbatim>\<open>[443/tcp allowed, 25 denied]\<close> in this order.
\<close>

theorem scenario_B:
  "step (key CHR ''a'') ''443/tcp !25'' \<lparr>port_lst = [], current_index = i, commands = w, popups = m\<rparr> =
     Inr (Continue,
       \<lparr>port_lst = [\<lparr>port_num = ''443'', allowed = True, protocol = ''tcp''\<rparr>,
                    \<lparr>port_num = ''25'', allowed = False, protocol = ''any''\<rparr>],
        current_index = i,
        commands = w @ [[''sudo'', ''ufw'', ''allow'', ''443/tcp''], [''sudo'', ''ufw'', ''deny'', ''25'']],
        popups = m\<rparr>)"
  by (simp add: step_def key_def KEY_UP_def KEY_DOWN_def ord_def input_window_def strip_def
      is_space_def split_sp_def add_port_def re_match_def add_re_def tcp_udp_def is_word_def
      input_port_def allow_def deny_def str_port_def)

text \<open>
  Claim C8 does not hold of the code: \<^verbatim>\<open>re.match\<close> accepts an item when a prefix of it
  matches. For \<^verbatim>\<open>22/foo\<close> the prefix \<^verbatim>\<open>22\<close> matches, the Port 22 (any protocol) is added
  and \<^verbatim>\<open>allow 22\<close> is run; no popup is shown. An item without a matching prefix, such as
  \<^verbatim>\<open>!\<close>, is refused with the popup and the items after it are still handled.
\<close>

theorem add_port_trailing_text:
  "add_port ''22/foo'' \<lparr>port_lst = [], current_index = 0, commands = [], popups = []\<rparr> =
     Inr \<lparr>port_lst = [\<lparr>port_num = ''22'', allowed = True, protocol = ''any''\<rparr>],
          current_index = 0, commands = [[''sudo'', ''ufw'', ''allow'', ''22'']], popups = []\<rparr>
   \<and> add_ports [''!'', ''25''] \<lparr>port_lst = [], current_index = 0, commands = [], popups = []\<rparr> =
     Inr \<lparr>port_lst = [\<lparr>port_num = ''25'', allowed = True, protocol = ''any''\<rparr>],
          current_index = 0, commands = [[''sudo'', ''ufw'', ''allow'', ''25'']],
          popups = [Popup ''Invalid port: !'' None]\<rparr>"
  by code_simp

section \<open>The loop\<close>

text \<open>
  What the loop keeps: from a session with typed Ports and a selection in the range
  above, a key other than \<^verbatim>\<open>q\<close> either leads to such a session again, or it is \<^verbatim>\<open>d\<close>
  on an empty collection and raises IndexError.
\<close>

lemma add_port_keeps:
  assumes "typed_ports st" and "cursor_range st"
  shows "\<exists>st'. add_port port_input st = Inr st' \<and> typed_ports st' \<and> cursor_range st'"
proof (cases "re_match add_re port_input")
  case None
  with assms show ?thesis
    by (simp add: add_port_def show_popup_def typed_ports_def cursor_range_def)
next
  case (Some g)
  from add_port_Some [OF Some, of st] input_port_typed [OF Some] assms show ?thesis
    by (auto simp: typed_ports_def cursor_range_def)
qed

lemma add_ports_keeps:
  assumes "typed_ports st" and "cursor_range st"
  shows "\<exists>st'. add_ports items st = Inr st' \<and> typed_ports st' \<and> cursor_range st'"
  using assms
proof (induction items arbitrary: st)
  case Nil
  then show ?case by simp
next
  case (Cons port_input items)
  from add_port_keeps [OF Cons.prems, of port_input] obtain st1
    where "add_port port_input st = Inr st1" "typed_ports st1" "cursor_range st1"
    by blast
  with Cons.IH [of st1] show ?case
    by simp
qed

lemma py_index_in_range:
  assumes "xs \<noteq> []" and "- 1 \<le> i" and "i < int (length xs) \<or> i = 0"
  shows "\<exists>k. py_index xs i = Inr k \<and> k < length xs"
  using assms by (cases xs) (auto simp: py_index_def Let_def)

lemma step_keeps:
  assumes "typed_ports st" and "cursor_range st" and "key_input \<noteq> key (CHR ''q'')"
  shows "(\<exists>st'. step key_input entered st = Inr (Continue, st') \<and> typed_ports st' \<and> cursor_range st')
       \<or> (key_input = key (CHR ''d'') \<and> port_lst st = [] \<and> step key_input entered st = Inl IndexError)"
proof -
  consider (up) "key_input = KEY_UP \<and> current_index st > 0"
    | (down) "\<not> (key_input = KEY_UP \<and> current_index st > 0)"
        "key_input = KEY_DOWN \<and> current_index st < int (length (port_lst st)) - 1"
    | (space) "key_input = key (CHR '' '')"
    | (a) "key_input = key (CHR ''a'')"
    | (d) "key_input = key (CHR ''d'')"
    | (h) "key_input = key (CHR ''h'')"
    | (other) "\<not> (key_input = KEY_UP \<and> current_index st > 0)"
        "\<not> (key_input = KEY_DOWN \<and> current_index st < int (length (port_lst st)) - 1)"
        "key_input \<noteq> key (CHR '' '')" "key_input \<noteq> key (CHR ''a'')"
        "key_input \<noteq> key (CHR ''d'')" "key_input \<noteq> key (CHR ''h'')"
    by blast
  then show ?thesis
  proof cases
    case up
    with assms show ?thesis
      by (auto simp: step_def typed_ports_def cursor_range_def)
  next
    case down
    with assms show ?thesis
      by (auto simp: step_def typed_ports_def cursor_range_def)
  next
    case space
    have k: "key_input \<noteq> KEY_UP" "key_input \<noteq> KEY_DOWN"
      using space by (simp_all add: key_def ord_def KEY_UP_def KEY_DOWN_def)
    show ?thesis
    proof (cases "port_lst st = []")
      case True
      with assms space k show ?thesis
        by (simp add: step_def show_popup_def typed_ports_def cursor_range_def)
    next
      case False
      from py_index_in_range [OF False] assms(2) obtain i
        where i: "py_index (port_lst st) (current_index st) = Inr i" "i < length (port_lst st)"
        unfolding cursor_range_def by blast
      have ty: "protocol (port_lst st ! i) \<in> {''any'', ''tcp'', ''udp''}"
        using assms(1) i(2) unfolding typed_ports_def list_all_length by blast
      then obtain s where s: "str_port (port_lst st ! i) = Inr s"
        using str_port_typed by blast
      have "typed_ports (st\<lparr>port_lst := (port_lst st)[i := (port_lst st ! i)\<lparr>allowed := b\<rparr>], commands := w\<rparr>)" for b w
        using assms(1) ty i(2) unfolding typed_ports_def list_all_length
        by (simp add: nth_list_update)
      moreover have "cursor_range (st\<lparr>port_lst := (port_lst st)[i := q], commands := w\<rparr>)" for q w
        using assms(2) by (simp add: cursor_range_def)
      ultimately show ?thesis
        using assms(3) space k False i s
        by (simp add: step_def toggle_def allow_def deny_def)
    qed
  next
    case a
    have k: "key_input \<noteq> KEY_UP" "key_input \<noteq> KEY_DOWN" "key_input \<noteq> key (CHR '' '')"
      using a by (simp_all add: key_def ord_def KEY_UP_def KEY_DOWN_def)
    from add_ports_keeps [OF assms(1,2), of "split_sp (input_window entered)"] obtain st'
      where "add_ports (split_sp (input_window entered)) st = Inr st'" "typed_ports st'" "cursor_range st'"
      by blast
    with assms a k show ?thesis
      by (simp add: step_def Let_def)
  next
    case d
    have k: "key_input \<noteq> KEY_UP" "key_input \<noteq> KEY_DOWN" "key_input \<noteq> key (CHR '' '')"
      "key_input \<noteq> key (CHR ''a'')"
      using d by (simp_all add: key_def ord_def KEY_UP_def KEY_DOWN_def)
    show ?thesis
    proof (cases "port_lst st = []")
      case True
      with assms(3) d k show ?thesis
        by (simp add: step_def py_index_def)
    next
      case False
      from py_index_in_range [OF False] assms(2) obtain i
        where i: "py_index (port_lst st) (current_index st) = Inr i" "i < length (port_lst st)"
        unfolding cursor_range_def by blast
      have ty: "protocol (port_lst st ! i) \<in> {''any'', ''tcp'', ''udp''}"
        using assms(1) i(2) unfolding typed_ports_def list_all_length by blast
      then obtain s where s: "str_port (port_lst st ! i) = Inr s"
        using str_port_typed by blast
      let ?popped = "take i (port_lst st) @ drop (Suc i) (port_lst st)"
      have len: "int (length ?popped) = int (length (port_lst st)) - 1"
        using i(2) by simp
      have "set ?popped \<subseteq> set (port_lst st)"
        using set_take_subset [of i "port_lst st"] set_drop_subset [of "Suc i" "port_lst st"]
        by auto
      then have ty': "typed_ports (st\<lparr>port_lst := ?popped, current_index := c, commands := w\<rparr>)" for c w
        using assms(1) unfolding typed_ports_def list_all_iff by auto
      have cr: "cursor_range (st\<lparr>port_lst := ?popped,
          current_index := (if current_index st \<ge> int (length ?popped)
                            then int (length ?popped) - 1 else current_index st),
          commands := w\<rparr>)" for w
        using assms(2) len unfolding cursor_range_def by auto
      show ?thesis
        using assms(3) d k False i s ty' cr
        by (simp add: step_def delete_def Let_def)
    qed
  next
    case h
    have k: "key_input \<noteq> KEY_UP" "key_input \<noteq> KEY_DOWN" "key_input \<noteq> key (CHR '' '')"
      "key_input \<noteq> key (CHR ''a'')" "key_input \<noteq> key (CHR ''d'')"
      using h by (simp_all add: key_def ord_def KEY_UP_def KEY_DOWN_def)
    with assms h show ?thesis
      by (simp add: step_def show_popup_def typed_ports_def cursor_range_def)
  next
    case other
    with assms show ?thesis
      by (auto simp: step_def)
  qed
qed

text \<open>
  The session that \<open>main\<close> starts with has both properties, so every session the loop
  reaches has them, and the only error that leaves the loop is the IndexError.
\<close>

lemma describes_typed: "describes line p \<Longrightarrow> protocol p \<in> {''any'', ''tcp'', ''udp''}"
  unfolding describes_def by blast

lemma get_ports_loop_typed:
  assumes "get_ports_loop acc ls = Inr ports"
    and "list_all (\<lambda>p. protocol p \<in> {''any'', ''tcp'', ''udp''}) acc"
  shows "list_all (\<lambda>p. protocol p \<in> {''any'', ''tcp'', ''udp''}) ports"
  using assms
proof (induction ls arbitrary: acc)
  case Nil
  then show ?case by simp
next
  case (Cons line ls)
  from Cons.prems(1) obtain g
    where g: "re_match status_re line = Some g"
      and r: "get_ports_loop (acc @ [status_port g]) ls = Inr ports"
    by (auto split: option.splits)
  from describes_typed [OF status_re_describes [OF g]] Cons.prems(2)
  have "list_all (\<lambda>p. protocol p \<in> {''any'', ''tcp'', ''udp''}) (acc @ [status_port g])"
    by simp
  with Cons.IH [OF r] show ?case .
qed

lemma get_ports_typed:
  assumes "get_ports stdout = Inr ports"
  shows "list_all (\<lambda>p. protocol p \<in> {''any'', ''tcp'', ''udp''}) ports"
proof -
  from assms obtain unsorted
    where u: "get_ports_loop [] (take (length (port_lines stdout) div 2) (port_lines stdout)) = Inr unsorted"
      and p: "ports = sort_key port_num unsorted"
    by (auto simp: get_ports_def Let_def split: if_splits sum.splits)
  from get_ports_loop_typed [OF u] show ?thesis
    unfolding p list_all_iff by simp
qed

lemma draw_rows_returns:
  assumes "list_all (\<lambda>p. protocol p \<in> {''any'', ''tcp'', ''udp''}) ports"
    and "list_all (\<lambda>i. 0 \<le> i \<and> i < int (length ports)) idxs"
  shows "\<exists>rows. draw_rows ports cur idxs = Inr rows"
  using assms(2)
proof (induction idxs)
  case Nil
  then show ?case by simp
next
  case (Cons i idxs)
  then have i: "0 \<le> i" "i < int (length ports)" and "\<exists>rows. draw_rows ports cur idxs = Inr rows"
    by simp_all
  then obtain rows where rows: "draw_rows ports cur idxs = Inr rows"
    by blast
  have p: "py_index ports i = Inr (nat i)"
    using i by (simp add: py_index_def)
  have "protocol (ports ! nat i) \<in> {''any'', ''tcp'', ''udp''}"
    using assms(1) i unfolding list_all_length by simp
  then obtain s where "str_port (ports ! nat i) = Inr s"
    using str_port_typed by blast
  with p rows show ?case
    by simp
qed

lemma draw_returns:
  assumes "typed_ports st"
  shows "\<exists>rows. draw max_y st = Inr rows"
proof (cases "port_lst st = []")
  case True
  then show ?thesis
    by (simp add: draw_def)
next
  case False
  obtain start_index end_index
    where v: "viewport (current_index st) (int (length (port_lst st))) (max_y - 2) = (start_index, end_index)"
    by (cases "viewport (current_index st) (int (length (port_lst st))) (max_y - 2)") auto
  then have "0 \<le> start_index" "end_index \<le> int (length (port_lst st))"
    by (auto simp: viewport_def Let_def split: if_splits)
  then have "list_all (\<lambda>i. 0 \<le> i \<and> i < int (length (port_lst st))) [start_index..end_index - 1]"
    by (simp add: list_all_iff)
  from draw_rows_returns [OF _ this, of "current_index st"] assms False v show ?thesis
    by (simp add: draw_def typed_ports_def)
qed

lemma main_loop_keeps:
  assumes "typed_ports st" and "cursor_range st"
  shows "case main_loop keys st of
           Inl e \<Rightarrow> e = IndexError
         | Inr (f, st') \<Rightarrow> typed_ports st' \<and> cursor_range st'"
  using assms
proof (induction keys arbitrary: st)
  case Nil
  then show ?case by simp
next
  case (Cons k keys)
  obtain max_y key_input entered where k: "k = (max_y, key_input, entered)"
    by (cases k) auto
  from draw_returns [OF Cons.prems(1), of max_y] obtain rows where d: "draw max_y st = Inr rows"
    by blast
  show ?case
  proof (cases "key_input = key (CHR ''q'')")
    case True
    with Cons.prems k d show ?thesis
      by (simp add: step_def)
  next
    case False
    from step_keeps [OF Cons.prems False, of entered] Cons.IH k d show ?thesis
      by auto
  qed
qed

lemma main_keeps:
  "case main stdout keys of
     Inl e \<Rightarrow> e = IndexError \<or> get_ports stdout = Inl e
   | Inr (f, st') \<Rightarrow> typed_ports st' \<and> cursor_range st'"
proof (cases "get_ports stdout")
  case (Inl e)
  then show ?thesis
    by (simp add: main_def)
next
  case (Inr ports)
  let ?st = "\<lparr>port_lst = ports, current_index = 0,
      commands = [[''sudo'', ''ufw'', ''status'', ''numbered'']], popups = []\<rparr>"
  have "typed_ports ?st" "cursor_range ?st"
    using get_ports_typed [OF Inr] by (simp_all add: typed_ports_def cursor_range_def)
  from main_loop_keeps [OF this, of keys] Inr show ?thesis
    by (auto simp: main_def split: sum.splits)
qed

text \<open>
  Claim C5 does not hold of the code: with an empty collection the key \<^verbatim>\<open>d\<close> indexes
  the empty list, and the IndexError leaves \<open>main\<close>.
\<close>

theorem delete_on_empty:
  "main ''Status: inactive'' [(24, key CHR ''d'', [])] = Inl IndexError"
  by code_simp

text \<open>
  Claim C6 does not hold of the code: deleting the only Port sets the selection to
  \<open>-1\<close>, and after a Port is added the collection is not empty while the selection is
  still \<open>-1\<close>.
\<close>

theorem cursor_after_delete_add:
  "main ''[ 1] 22 ALLOW IN Anywhere\<newline>[ 2] 22 (v6) ALLOW IN Anywhere (v6)''
        [(24, key CHR ''d'', []), (24, key CHR ''a'', ''80'')] =
     Inr (Continue,
       \<lparr>port_lst = [\<lparr>port_num = ''80'', allowed = True, protocol = ''any''\<rparr>],
        current_index = - 1,
        commands = [[''sudo'', ''ufw'', ''status'', ''numbered''],
                    [''sudo'', ''ufw'', ''delete'', ''allow'', ''22''],
                    [''sudo'', ''ufw'', ''allow'', ''80'']],
        popups = []\<rparr>)"
  by code_simp

end
